theory Spec2Isabelle
  imports Main "HOL-Library.Word"
begin

section \<open>Enumerations and their underlying integers\<close>

text \<open>
  The header \<^verbatim>\<open>enum_helpers.hpp\<close> is generic in the enumeration type. An enumeration
  value is stored as a value of its underlying integer type
  (\<^verbatim>\<open>std::underlying_type<EnumType>::type\<close>, called \<^verbatim>\<open>integer_type\<close> in the header) and
  \<^verbatim>\<open>static_cast\<close> between the two keeps the representation. The underlying type is a
  machine integer of some width \<open>'w\<close>, the number of bits of its values, signed
  (\<^verbatim>\<open>int\<close>, the underlying type of a scoped enumeration without an enum-base) or
  unsigned; \<^verbatim>\<open>bool\<close>, whose values are 0 and 1, is the unsigned type of width 1. The types
  below take the underlying type \<open>'i\<close> as their parameter; the operations use them at
  \<open>'i = 'w word\<close>.
\<close>

datatype 'i enum_value = Enum (underlying: 'i)

datatype signedness = Signed | Unsigned

text \<open>The mathematical value of an \<^verbatim>\<open>integer_type\<close> object.\<close>

definition int_value :: "signedness \<Rightarrow> 'w::len word \<Rightarrow> int" where
  "int_value sg x = (case sg of Signed \<Rightarrow> sint x | Unsigned \<Rightarrow> uint x)"

text \<open>
  \<^verbatim>\<open>a < b\<close> on two \<^verbatim>\<open>integer_type\<close> objects: the signed or the unsigned comparison
  of the machine words, as the type has it.
\<close>

definition integer_less :: "signedness \<Rightarrow> 'w::len word \<Rightarrow> 'w word \<Rightarrow> bool" where
  "integer_less sg a b = (case sg of Signed \<Rightarrow> a <s b | Unsigned \<Rightarrow> a < b)"

text \<open>
  \<^verbatim>\<open>unsigned int\<close> (the type of the template parameter \<^verbatim>\<open>Step\<close>) and \<^verbatim>\<open>std::size_t\<close>.
\<close>

type_synonym unsigned_int = "32 word"
type_synonym size_t = "64 word"

text \<open>
  \<^verbatim>\<open>std::size_t(e)\<close> for an enumeration value \<^verbatim>\<open>e\<close>: the conversion of its integer value
  to the unsigned 64-bit type, that is the value modulo \<open>2 ^ 64\<close> (sign extension of a
  signed underlying integer, zero extension of an unsigned one).
\<close>

definition to_size_t :: "signedness \<Rightarrow> 'w::len word enum_value \<Rightarrow> size_t" where
  "to_size_t sg e = (case sg of Signed \<Rightarrow> scast (underlying e) | Unsigned \<Rightarrow> ucast (underlying e))"

text \<open>
  \<^verbatim>\<open>ENUM_HELPERS_ASSERT\<close> defaults to \<^verbatim>\<open>assert\<close>. The model is that of a build in
  which the assertions are checked: a failed assertion ends the program, and in the model
  it is the error value \<open>ContractViolation\<close> of the operation that asserts.
  The unchecked pointer iterators of \<^verbatim>\<open>enum_array\<close> have no assertion: reading through a
  pointer that is not at an element is \<open>UndefinedBehaviour\<close>.
\<close>

datatype error = ContractViolation | UndefinedBehaviour

section \<open>\<^verbatim>\<open>enum_iterator<EnumType, Last, Step>\<close>\<close>

text \<open>
  The class has the single data member \<^verbatim>\<open>integer_type m_current\<close>;
  \<open>'i\<close> is \<^verbatim>\<open>integer_type\<close>. The template arguments
  \<^verbatim>\<open>Last\<close> and \<^verbatim>\<open>Step\<close> and the signedness of \<^verbatim>\<open>integer_type\<close> are arguments of the
  operations that use them.
\<close>

record 'i enum_iterator =
  m_current :: 'i

text \<open>\<^verbatim>\<open>enum_iterator() : m_current{ 0 }\<close>\<close>

definition enum_iterator_default :: "'w::len word enum_iterator" where
  "enum_iterator_default = \<lparr>m_current = 0\<rparr>"

text \<open>\<^verbatim>\<open>enum_iterator(const EnumType index) : m_current{ static_cast<integer_type>(index) }\<close>\<close>

definition enum_iterator_from :: "'w::len word enum_value \<Rightarrow> 'w word enum_iterator" where
  "enum_iterator_from index = \<lparr>m_current = underlying index\<rparr>"

text \<open>
  \<^verbatim>\<open>m_current += Step\<close>: \<^verbatim>\<open>Step\<close> is an \<^verbatim>\<open>unsigned int\<close>. The sum is formed after the usual
  arithmetic conversions and converted back to \<^verbatim>\<open>integer_type\<close>:
  \<^item> for \<^verbatim>\<open>bool\<close> (unsigned, width 1) the operands are added as \<^verbatim>\<open>unsigned int\<close> and
    the sum converts to \<^verbatim>\<open>true\<close> unless it is zero;
  \<^item> for a signed type wider than \<^verbatim>\<open>unsigned int\<close> (\<^verbatim>\<open>long long\<close>) \<^verbatim>\<open>Step\<close> is converted
    to that type and the addition is signed: when the sum is above the largest value of
    the type the behaviour is undefined;
  \<^item> for every other type the addition is unsigned (in \<^verbatim>\<open>unsigned int\<close>, or in the type
    itself when it is wider) and the conversion back keeps the low bits of the sum, so
    the addition is that of the word type and wraps around. For a signed type of at most
    32 bits this conversion of a sum that is out of range is the modular one of C++20,
    which the compilers also implement for the earlier standards.
\<close>

definition advance ::
  "signedness \<Rightarrow> unsigned_int \<Rightarrow> 'w::len word enum_iterator \<Rightarrow> error + 'w word enum_iterator" where
  "advance sg Step it =
     (if sg = Unsigned \<and> LENGTH('w) = 1 then
        Inr (it\<lparr>m_current :=
               (if (ucast (m_current it) + Step :: unsigned_int) = 0 then 0 else 1)\<rparr>)
      else if sg = Signed \<and> 32 < LENGTH('w) then
        (if sint (m_current it) + uint Step < 2 ^ (LENGTH('w) - 1)
         then Inr (it\<lparr>m_current := m_current it + ucast Step\<rparr>)
         else Inl UndefinedBehaviour)
      else Inr (it\<lparr>m_current := m_current it + ucast Step\<rparr>))"

text \<open>
  Both increment operators return an iterator by value and change the receiver. The
  model returns the pair (returned iterator, receiver afterwards), or the error of the
  addition.

  Pre-increment: \<^verbatim>\<open>m_current += Step; return *this;\<close>
\<close>

definition pre_increment ::
  "signedness \<Rightarrow> unsigned_int \<Rightarrow> 'w::len word enum_iterator \<Rightarrow>
   error + 'w word enum_iterator \<times> 'w word enum_iterator" where
  "pre_increment sg Step it =
     (case advance sg Step it of
        Inl err \<Rightarrow> Inl err
      | Inr this \<Rightarrow> Inr (this, this))"

text \<open>Post-increment: \<^verbatim>\<open>enum_iterator old_val{ *this }; m_current += Step; return old_val;\<close>\<close>

definition post_increment ::
  "signedness \<Rightarrow> unsigned_int \<Rightarrow> 'w::len word enum_iterator \<Rightarrow>
   error + 'w word enum_iterator \<times> 'w word enum_iterator" where
  "post_increment sg Step it =
     (let old_val = it in
      case advance sg Step it of
        Inl err \<Rightarrow> Inl err
      | Inr this \<Rightarrow> Inr (old_val, this))"

text \<open>
  \<^verbatim>\<open>operator*\<close>:
  \<^verbatim>\<open>ENUM_HELPERS_ASSERT(m_current < static_cast<integer_type>(Last));
  return static_cast<EnumType>(m_current);\<close>
\<close>

definition deref ::
  "signedness \<Rightarrow> 'w::len word enum_value \<Rightarrow> 'w word enum_iterator \<Rightarrow> error + 'w word enum_value" where
  "deref sg Last it =
     (if integer_less sg (m_current it) (underlying Last)
      then Inr (Enum (m_current it))
      else Inl ContractViolation)"

text \<open>The comparison operators compare \<^verbatim>\<open>m_current\<close>.\<close>

definition it_eq :: "'w::len word enum_iterator \<Rightarrow> 'w word enum_iterator \<Rightarrow> bool" where
  "it_eq a other = (m_current a = m_current other)"

definition it_ne :: "'w::len word enum_iterator \<Rightarrow> 'w word enum_iterator \<Rightarrow> bool" where
  "it_ne a other = (m_current a \<noteq> m_current other)"

definition it_lt :: "signedness \<Rightarrow> 'w::len word enum_iterator \<Rightarrow> 'w word enum_iterator \<Rightarrow> bool" where
  "it_lt sg a other = integer_less sg (m_current a) (m_current other)"

definition it_gt :: "signedness \<Rightarrow> 'w::len word enum_iterator \<Rightarrow> 'w word enum_iterator \<Rightarrow> bool" where
  "it_gt sg a other = integer_less sg (m_current other) (m_current a)"

definition it_le :: "signedness \<Rightarrow> 'w::len word enum_iterator \<Rightarrow> 'w word enum_iterator \<Rightarrow> bool" where
  "it_le sg a other = (\<not> integer_less sg (m_current other) (m_current a))"

definition it_ge :: "signedness \<Rightarrow> 'w::len word enum_iterator \<Rightarrow> 'w word enum_iterator \<Rightarrow> bool" where
  "it_ge sg a other = (\<not> integer_less sg (m_current a) (m_current other))"

text \<open>
  \<^verbatim>\<open>begin() const { return enum_iterator{}; }\<close> and
  \<^verbatim>\<open>end() const { return enum_iterator{ Last }; }\<close>; neither reads the receiver.
\<close>

definition it_begin :: "'w::len word enum_iterator \<Rightarrow> 'w word enum_iterator" where
  "it_begin this = enum_iterator_default"

definition it_end :: "'w::len word enum_value \<Rightarrow> 'w word enum_iterator \<Rightarrow> 'w word enum_iterator" where
  "it_end Last this = enum_iterator_from Last"

text \<open>A copy of an iterator is the same value.\<close>

definition it_copy :: "'w::len word enum_iterator \<Rightarrow> 'w word enum_iterator" where
  "it_copy this = this"

subsection \<open>Iterating a range\<close>

text \<open>
  The loop of the usage sample,
  \<^verbatim>\<open>for (auto c = iter.begin(); c != iter.end(); ++c) { ... *c ... }\<close>,
  which is also what the range-based \<^verbatim>\<open>for (auto c : iter)\<close> runs: while the cursor differs
  from the end iterator, dereference it, hand the value to the body, pre-increment.
  The result is the list of values handed to the body and how the loop ended: at
  \<^verbatim>\<open>end()\<close>, or in the error of a dereference or of an increment. The loop need not end
  (the cursor can step over \<^verbatim>\<open>Last\<close> and wrap around), so it runs on fuel: \<open>None\<close> means
  the fuel ran out.
\<close>

datatype outcome = Completed | Aborted error

fun range_loop ::
  "nat \<Rightarrow> signedness \<Rightarrow> 'w::len word enum_value \<Rightarrow> unsigned_int \<Rightarrow>
   'w word enum_iterator \<Rightarrow> 'w word enum_iterator \<Rightarrow> ('w word enum_value list \<times> outcome) option" where
  "range_loop 0 sg Last Step c e = None"
| "range_loop (Suc fuel) sg Last Step c e =
     (if it_ne c e then
        (case deref sg Last c of
           Inl err \<Rightarrow> Some ([], Aborted err)
         | Inr v \<Rightarrow>
             (case pre_increment sg Step c of
                Inl err \<Rightarrow> Some ([v], Aborted err)
              | Inr (returned, c') \<Rightarrow>
                  (case range_loop fuel sg Last Step c' e of
                     None \<Rightarrow> None
                   | Some (vs, r) \<Rightarrow> Some (v # vs, r))))
      else Some ([], Completed))"

definition iterate ::
  "nat \<Rightarrow> signedness \<Rightarrow> 'w::len word enum_value \<Rightarrow> unsigned_int \<Rightarrow> 'w word enum_iterator \<Rightarrow>
   ('w word enum_value list \<times> outcome) option" where
  "iterate fuel sg Last Step iter =
     range_loop fuel sg Last Step (it_begin iter) (it_end Last iter)"

subsection \<open>Ranges of positions\<close>

text \<open>
  The two ranges a position is compared with: the half-open range \<open>[0, Last)\<close> of the
  positions that can be dereferenced from \<^verbatim>\<open>begin()\<close> on, and the closed range
  \<open>[0, Last]\<close>, which also holds the position of \<^verbatim>\<open>end()\<close>.
\<close>

definition position_in_half_open_range ::
  "signedness \<Rightarrow> 'w::len word enum_value \<Rightarrow> 'w word enum_iterator \<Rightarrow> bool" where
  "position_in_half_open_range sg Last it =
     (0 \<le> int_value sg (m_current it) \<and> int_value sg (m_current it) < int_value sg (underlying Last))"

definition position_in_closed_range ::
  "signedness \<Rightarrow> 'w::len word enum_value \<Rightarrow> 'w word enum_iterator \<Rightarrow> bool" where
  "position_in_closed_range sg Last it =
     (0 \<le> int_value sg (m_current it) \<and> int_value sg (m_current it) \<le> int_value sg (underlying Last))"

section \<open>\<^verbatim>\<open>enum_array<EnumType, DataType, ArraySize>\<close>\<close>

text \<open>
  The struct has the single data member \<^verbatim>\<open>DataType m_elements[std::size_t(ArraySize)]\<close>,
  initialised as an aggregate from the list of its elements. The model keeps the elements
  as a list; \<open>well_formed\<close> says that the list has the length the array type fixes.
\<close>

record 'a enum_array =
  m_elements :: "'a list"

text \<open>\<^verbatim>\<open>static constexpr std::size_t size() { return std::size_t(ArraySize); }\<close>\<close>

definition size_array :: "signedness \<Rightarrow> 'w::len word enum_value \<Rightarrow> size_t" where
  "size_array sg ArraySize = to_size_t sg ArraySize"

definition well_formed :: "signedness \<Rightarrow> 'w::len word enum_value \<Rightarrow> 'a enum_array \<Rightarrow> bool" where
  "well_formed sg ArraySize a = (length (m_elements a) = unat (size_array sg ArraySize))"

text \<open>
  \<^verbatim>\<open>static constexpr key_iterator keys() { return key_iterator{}; }\<close> where \<^verbatim>\<open>key_iterator\<close> is
  \<^verbatim>\<open>enum_iterator<EnumType, ArraySize>\<close>: its \<^verbatim>\<open>Last\<close> is \<^verbatim>\<open>ArraySize\<close> and its \<^verbatim>\<open>Step\<close> is
  the default, 1.
\<close>

definition keys :: "'w::len word enum_iterator" where
  "keys = enum_iterator_default"

definition key_iterator_Step :: unsigned_int where
  "key_iterator_Step = 1"

subsection \<open>Array access with asserts\<close>

text \<open>
  All four overloads of \<^verbatim>\<open>operator[]\<close> assert that the index (for an enumeration value:
  \<^verbatim>\<open>std::size_t(index)\<close>) is below \<^verbatim>\<open>size()\<close> and return a reference to
  \<^verbatim>\<open>m_elements[index]\<close>. A reference to a slot of the array is its position in
  \<^verbatim>\<open>m_elements\<close>; the \<^verbatim>\<open>const\<close> overloads give read access only and return the element.
\<close>

type_synonym slot_ref = nat

definition subscript_pos ::
  "signedness \<Rightarrow> 'w::len word enum_value \<Rightarrow> 'a enum_array \<Rightarrow> size_t \<Rightarrow> error + slot_ref" where
  "subscript_pos sg ArraySize a index =
     (if index < size_array sg ArraySize then Inr (unat index) else Inl ContractViolation)"

definition subscript_pos_const ::
  "signedness \<Rightarrow> 'w::len word enum_value \<Rightarrow> 'a enum_array \<Rightarrow> size_t \<Rightarrow> error + 'a" where
  "subscript_pos_const sg ArraySize a index =
     (if index < size_array sg ArraySize then Inr (m_elements a ! unat index)
      else Inl ContractViolation)"

definition subscript_key ::
  "signedness \<Rightarrow> 'w::len word enum_value \<Rightarrow> 'a enum_array \<Rightarrow> 'w word enum_value \<Rightarrow>
   error + slot_ref" where
  "subscript_key sg ArraySize a index =
     (if to_size_t sg index < size_array sg ArraySize then Inr (unat (to_size_t sg index))
      else Inl ContractViolation)"

definition subscript_key_const ::
  "signedness \<Rightarrow> 'w::len word enum_value \<Rightarrow> 'a enum_array \<Rightarrow> 'w word enum_value \<Rightarrow>
   error + 'a" where
  "subscript_key_const sg ArraySize a index =
     (if to_size_t sg index < size_array sg ArraySize
      then Inr (m_elements a ! unat (to_size_t sg index))
      else Inl ContractViolation)"

text \<open>Reading and assigning through a reference returned by a mutable overload.\<close>

definition read_slot :: "'a enum_array \<Rightarrow> slot_ref \<Rightarrow> 'a" where
  "read_slot a r = m_elements a ! r"

definition write_slot :: "'a enum_array \<Rightarrow> slot_ref \<Rightarrow> 'a \<Rightarrow> 'a enum_array" where
  "write_slot a r v = a\<lparr>m_elements := (m_elements a)[r := v]\<rparr>"

text \<open>
  The statement \<^verbatim>\<open>array[index] = v\<close>, by position and by enumeration value: the
  assertion of \<^verbatim>\<open>operator[]\<close>, then the assignment through the reference.
\<close>

definition assign_pos ::
  "signedness \<Rightarrow> 'w::len word enum_value \<Rightarrow> 'a enum_array \<Rightarrow> size_t \<Rightarrow> 'a \<Rightarrow>
   error + 'a enum_array" where
  "assign_pos sg ArraySize a index v =
     (case subscript_pos sg ArraySize a index of
        Inl err \<Rightarrow> Inl err
      | Inr r \<Rightarrow> Inr (write_slot a r v))"

definition assign_key ::
  "signedness \<Rightarrow> 'w::len word enum_value \<Rightarrow> 'a enum_array \<Rightarrow> 'w word enum_value \<Rightarrow> 'a \<Rightarrow>
   error + 'a enum_array" where
  "assign_key sg ArraySize a index v =
     (case subscript_key sg ArraySize a index of
        Inl err \<Rightarrow> Inl err
      | Inr r \<Rightarrow> Inr (write_slot a r v))"

subsection \<open>Range iterators (unchecked)\<close>

text \<open>
  \<^verbatim>\<open>iterator\<close> is \<^verbatim>\<open>DataType *\<close>. A pointer into \<^verbatim>\<open>m_elements\<close> is the offset of the
  element it points at; \<^verbatim>\<open>&m_elements[size()]\<close> is the offset one past the last element.
\<close>

type_synonym pointer = nat

definition array_begin :: "'a enum_array \<Rightarrow> pointer" where
  "array_begin a = 0"

definition array_end :: "signedness \<Rightarrow> 'w::len word enum_value \<Rightarrow> 'a enum_array \<Rightarrow> pointer" where
  "array_end sg ArraySize a = unat (size_array sg ArraySize)"

text \<open>\<^verbatim>\<open>*p\<close> on a pointer: defined only when it points at an element.\<close>

definition pointer_deref :: "'a list \<Rightarrow> pointer \<Rightarrow> error + 'a" where
  "pointer_deref mem p = (if p < length mem then Inr (mem ! p) else Inl UndefinedBehaviour)"

text \<open>
  The forward loop \<^verbatim>\<open>for (auto p = a.begin(); p != a.end(); ++p) { ... *p ... }\<close>, which
  is what \<^verbatim>\<open>for (const auto & s : a)\<close> runs.
\<close>

function pointer_loop :: "'a list \<Rightarrow> pointer \<Rightarrow> pointer \<Rightarrow> 'a list \<times> outcome" where
  "pointer_loop mem p e =
     (if p \<noteq> e then
        (case pointer_deref mem p of
           Inl err \<Rightarrow> ([], Aborted err)
         | Inr v \<Rightarrow> (case pointer_loop mem (Suc p) e of (vs, r) \<Rightarrow> (v # vs, r)))
      else ([], Completed))"
  by pat_completeness auto
termination
  by (relation "measure (\<lambda>(mem, p, e). length mem - p)")
    (auto simp: pointer_deref_def split: if_splits)

definition forward_traversal ::
  "signedness \<Rightarrow> 'w::len word enum_value \<Rightarrow> 'a enum_array \<Rightarrow> 'a list \<times> outcome" where
  "forward_traversal sg ArraySize a =
     pointer_loop (m_elements a) (array_begin a) (array_end sg ArraySize a)"

text \<open>
  \<^verbatim>\<open>std::reverse_iterator\<close> is the adaptor of the C++ standard library, not code of this
  header. It is modelled after the standard: it holds a copy \<^verbatim>\<open>current\<close> of the
  iterator it is built from, \<^verbatim>\<open>*r\<close> is \<^verbatim>\<open>*(current - 1)\<close>, \<^verbatim>\<open>++r\<close> is \<^verbatim>\<open>--current\<close>,
  and two reverse iterators differ when their \<^verbatim>\<open>current\<close> differ.
\<close>

record reverse_iterator =
  current :: pointer

definition reverse_deref :: "'a list \<Rightarrow> reverse_iterator \<Rightarrow> error + 'a" where
  "reverse_deref mem r =
     (if 0 < current r then pointer_deref mem (current r - 1) else Inl UndefinedBehaviour)"

definition reverse_increment :: "reverse_iterator \<Rightarrow> reverse_iterator" where
  "reverse_increment r = r\<lparr>current := current r - 1\<rparr>"

definition reverse_ne :: "reverse_iterator \<Rightarrow> reverse_iterator \<Rightarrow> bool" where
  "reverse_ne r other = (current r \<noteq> current other)"

text \<open>
  \<^verbatim>\<open>rbegin() { return reverse_iterator{ end() }; }\<close> and
  \<^verbatim>\<open>rend() { return reverse_iterator{ begin() }; }\<close>
\<close>

definition array_rbegin ::
  "signedness \<Rightarrow> 'w::len word enum_value \<Rightarrow> 'a enum_array \<Rightarrow> reverse_iterator" where
  "array_rbegin sg ArraySize a = \<lparr>current = array_end sg ArraySize a\<rparr>"

definition array_rend :: "'a enum_array \<Rightarrow> reverse_iterator" where
  "array_rend a = \<lparr>current = array_begin a\<rparr>"

text \<open>
  The reverse loop of the usage sample,
  \<^verbatim>\<open>for (auto i = a.rbegin(); i != a.rend(); ++i) { ... *i ... }\<close>.
\<close>

function reverse_loop ::
  "'a list \<Rightarrow> reverse_iterator \<Rightarrow> reverse_iterator \<Rightarrow> 'a list \<times> outcome" where
  "reverse_loop mem i e =
     (if reverse_ne i e then
        (case reverse_deref mem i of
           Inl err \<Rightarrow> ([], Aborted err)
         | Inr v \<Rightarrow> (case reverse_loop mem (reverse_increment i) e of (vs, r) \<Rightarrow> (v # vs, r)))
      else ([], Completed))"
  by pat_completeness auto
termination
  by (relation "measure (\<lambda>(mem, i, e). current i)")
    (auto simp: reverse_deref_def reverse_increment_def split: if_splits)

definition reverse_traversal ::
  "signedness \<Rightarrow> 'w::len word enum_value \<Rightarrow> 'a enum_array \<Rightarrow> 'a list \<times> outcome" where
  "reverse_traversal sg ArraySize a =
     reverse_loop (m_elements a) (array_rbegin sg ArraySize a) (array_rend a)"

text \<open>The loops are unfolded one round at a time.\<close>

declare pointer_loop.simps [simp del] reverse_loop.simps [simp del]

section \<open>Integers of the underlying type\<close>

lemma integer_less_iff:
  "integer_less sg a b \<longleftrightarrow> int_value sg a < int_value sg b"
  by (cases sg) (simp_all add: integer_less_def int_value_def word_sless_alt word_less_def)

lemma word_of_int_int_value:
  "word_of_int (int_value sg x) = x"
  by (cases sg) (simp_all add: int_value_def)

lemma to_size_t_eq:
  "to_size_t sg e = word_of_int (int_value sg (underlying e))"
  by (cases sg) (simp_all add: to_size_t_def int_value_def)

lemma advance_int_value:
  fixes x y :: "'w::len word"
  assumes "int_value sg x + uint Step = int_value sg y"
  shows "x + ucast Step = y"
proof -
  have "x + ucast Step = word_of_int (int_value sg x) + word_of_int (uint Step)"
    by (simp add: word_of_int_int_value)
  also have "\<dots> = word_of_int (int_value sg x + uint Step)"
    by simp
  also have "\<dots> = y"
    unfolding assms by (rule word_of_int_int_value)
  finally show ?thesis .
qed

lemma word_one_bit:
  fixes y :: "'w::len word"
  assumes "LENGTH('w) = 1"
  shows "y = 0 \<or> y = 1"
proof -
  have "uint y < 2 ^ LENGTH('w)" by (rule uint_lt2p)
  with assms have "uint y < 2" by simp
  moreover have "0 \<le> uint y" by simp
  ultimately have "uint y = 0 \<or> uint y = 1" by linarith
  then have "word_of_int (uint y) = (0 :: 'w word) \<or> word_of_int (uint y) = (1 :: 'w word)"
    by (metis word_of_int_0 word_of_int_1)
  then show ?thesis by simp
qed

text \<open>
  When the sum of the position and the step is the value of an \<^verbatim>\<open>integer_type\<close> object
  \<open>y\<close>, the addition succeeds and gives \<open>y\<close>, for every underlying type.
\<close>

lemma advance_representable:
  fixes it :: "'w::len word enum_iterator" and y :: "'w word"
  assumes sum: "int_value sg (m_current it) + uint Step = int_value sg y"
  shows "advance sg Step it = Inr (it\<lparr>m_current := y\<rparr>)"
proof -
  have wrap: "m_current it + ucast Step = y"
    using sum by (rule advance_int_value)
  show ?thesis
  proof (cases "sg = Unsigned \<and> LENGTH('w) = 1")
    case True
    then have u: "uint (m_current it) + uint Step = uint y"
      using sum by (simp add: int_value_def)
    have a: "(ucast (m_current it) :: unsigned_int) = word_of_int (uint (m_current it))"
      by (rule ucast_eq)
    have b: "Step = word_of_int (uint Step)"
      by simp
    have "(ucast (m_current it) + Step :: unsigned_int)
        = word_of_int (uint (m_current it)) + word_of_int (uint Step)"
      using a b by (rule arg_cong2)
    also have "\<dots> = word_of_int (uint (m_current it) + uint Step)"
      by (simp only: of_int_add)
    also have "\<dots> = word_of_int (uint y)"
      by (simp only: u)
    also have "\<dots> = ucast y"
      by (rule ucast_eq [symmetric])
    finally have c: "(ucast (m_current it) + Step :: unsigned_int) = ucast y" .
    have "is_up (ucast :: 'w word \<Rightarrow> unsigned_int)"
      using True by (simp add: is_up)
    then have id: "(ucast (ucast y :: unsigned_int) :: 'w word) = y"
      by (rule ucast_up_ucast_id)
    have z: "(ucast y :: unsigned_int) = 0 \<longleftrightarrow> y = 0"
    proof
      assume "(ucast y :: unsigned_int) = 0"
      then have "(ucast (ucast y :: unsigned_int) :: 'w word) = ucast (0 :: unsigned_int)"
        by (rule arg_cong)
      with id show "y = 0" by simp
    next
      assume "y = 0"
      then show "(ucast y :: unsigned_int) = 0" by simp
    qed
    from True have "y = 0 \<or> y = 1" by (intro word_one_bit) simp
    with True c z show ?thesis
      by (auto simp: advance_def)
  next
    case False
    show ?thesis
    proof (cases "sg = Signed \<and> 32 < LENGTH('w)")
      case True
      then have "sint (m_current it) + uint Step = sint y"
        using sum by (simp add: int_value_def)
      moreover have "sint y < 2 ^ (LENGTH('w) - 1)" by (rule sint_lt)
      ultimately have "sint (m_current it) + uint Step < 2 ^ (LENGTH('w) - 1)" by simp
      moreover have "advance sg Step it =
          (if sint (m_current it) + uint Step < 2 ^ (LENGTH('w) - 1)
           then Inr (it\<lparr>m_current := m_current it + ucast Step\<rparr>)
           else Inl UndefinedBehaviour)"
        using True by (simp add: advance_def)
      ultimately show ?thesis using wrap by simp
    next
      case nw: False
      have "advance sg Step it = Inr (it\<lparr>m_current := m_current it + ucast Step\<rparr>)"
        unfolding advance_def by (simp only: False nw if_False)
      with wrap show ?thesis by simp
    qed
  qed
qed

lemma int_value_bounds:
  fixes x :: "'w::len word"
  shows "- (2 ^ (LENGTH('w) - 1)) \<le> int_value sg x" and "int_value sg x < 2 ^ LENGTH('w)"
proof -
  have p: "(2::int) ^ (LENGTH('w) - 1) \<le> 2 ^ LENGTH('w)"
    by (rule power_increasing) simp_all
  show "- (2 ^ (LENGTH('w) - 1)) \<le> int_value sg x"
  proof (cases sg)
    case Signed
    then show ?thesis using sint_ge [of x] by (simp add: int_value_def)
  next
    case Unsigned
    have "- (2 ^ (LENGTH('w) - 1)) \<le> (0::int)" by simp
    also have "0 \<le> uint x" by simp
    finally show ?thesis using Unsigned by (simp add: int_value_def)
  qed
  show "int_value sg x < 2 ^ LENGTH('w)"
  proof (cases sg)
    case Signed
    have "sint x < 2 ^ (LENGTH('w) - 1)" by (rule sint_lt)
    with p have "sint x < 2 ^ LENGTH('w)" by linarith
    with Signed show ?thesis by (simp add: int_value_def)
  next
    case Unsigned
    then show ?thesis using uint_lt2p [of x] by (simp add: int_value_def)
  qed
qed

lemma uint_to_size_t_nonneg:
  fixes e :: "'w::len word enum_value"
  assumes w: "LENGTH('w) \<le> 64" and nn: "0 \<le> int_value sg (underlying e)"
  shows "uint (to_size_t sg e) = int_value sg (underlying e)"
proof -
  have "(2::int) ^ LENGTH('w) \<le> 2 ^ 64"
    using w by (intro power_increasing) simp_all
  with int_value_bounds(2) [of sg "underlying e"]
  have "int_value sg (underlying e) < 2 ^ 64" by linarith
  with nn have "take_bit 64 (int_value sg (underlying e)) = int_value sg (underlying e)"
    by (intro take_bit_int_eq_self) simp_all
  then show ?thesis
    by (simp add: to_size_t_eq uint_word_of_int_eq)
qed


lemma int_value_eq_of_nat:
  fixes x :: "'w::len word"
  assumes "int_value sg x = int n"
  shows "x = of_nat n"
proof (cases sg)
  case Signed
  with assms have "sint x = int n" by (simp add: int_value_def)
  then have "word_of_int (sint x) = (word_of_int (int n) :: 'w word)" by simp
  then show ?thesis by simp
next
  case Unsigned
  with assms have "uint x = int n" by (simp add: int_value_def)
  then have "word_of_int (uint x) = (word_of_int (int n) :: 'w word)" by simp
  then show ?thesis by simp
qed

lemma int_value_of_nat_le:
  fixes x :: "'w::len word"
  assumes "int_value sg x = int n" and "j \<le> n"
  shows "int_value sg (of_nat j :: 'w word) = int j"
proof (cases sg)
  case Signed
  with assms have "sint x = int n" by (simp add: int_value_def)
  moreover have "sint x < 2 ^ (LENGTH('w) - 1)" by (rule sint_lt)
  ultimately have "int j < 2 ^ (LENGTH('w) - 1)" using assms(2) by linarith
  moreover have "- (2 ^ (LENGTH('w) - 1)) \<le> int j"
  proof -
    have "- (2 ^ (LENGTH('w) - 1)) \<le> (0::int)" by simp
    also have "0 \<le> int j" by simp
    finally show ?thesis .
  qed
  ultimately have "signed_take_bit (LENGTH('w) - 1) (int j) = int j"
    by (intro signed_take_bit_int_eq_self)
  then have "sint (of_nat j :: 'w word) = int j"
    by (simp add: signed_of_nat)
  with Signed show ?thesis by (simp add: int_value_def)
next
  case Unsigned
  with assms have "uint x = int n" by (simp add: int_value_def)
  moreover have "uint x < 2 ^ LENGTH('w)" by (rule uint_lt2p)
  ultimately have "int j < 2 ^ LENGTH('w)" using assms(2) by linarith
  then have "uint (of_nat j :: 'w word) = int j"
    by (simp add: uint_word_of_int take_bit_int_eq_self unsigned_of_nat take_bit_nat_eq_self)
  with Unsigned show ?thesis by (simp add: int_value_def)
qed

section \<open>The range loop on an aligned terminal value\<close>

text \<open>
  When the terminal value is the multiple \<open>m * s\<close> of the step \<open>s\<close>, the loop started at
  the multiple \<open>k * s\<close> visits the multiples up to the terminal value and completes.
\<close>

lemma range_loop_aligned:
  fixes Last :: "'w::len word enum_value"
  assumes N: "int_value sg (underlying Last) = int (m * s)"
    and s: "unat Step = s" and S: "0 < s"
    and k: "k \<le> m" and fuel: "m - k < fuel"
  shows "range_loop fuel sg Last Step \<lparr>m_current = of_nat (k * s)\<rparr> (it_end Last this)
       = Some (map (\<lambda>i. Enum (of_nat (i * s))) [k..<m], Completed)"
  using k fuel
proof (induction fuel arbitrary: k)
  case 0
  then show ?case by simp
next
  case (Suc fuel)
  have last: "underlying Last = of_nat (m * s)"
    using N by (rule int_value_eq_of_nat)
  show ?case
  proof (cases "k = m")
    case True
    then show ?thesis
      by (simp add: it_ne_def it_end_def enum_iterator_from_def last)
  next
    case False
    with Suc.prems have km: "k < m" by simp
    then have lt: "k * s < m * s" using S by simp
    have vk: "int_value sg (of_nat (k * s) :: 'w word) = int (k * s)"
      using N by (rule int_value_of_nat_le) (use lt in simp)
    have ne: "(of_nat (k * s) :: 'w word) \<noteq> of_nat (m * s)"
    proof
      assume eq: "(of_nat (k * s) :: 'w word) = of_nat (m * s)"
      have "int_value sg (of_nat (k * s) :: 'w word) = int_value sg (underlying Last)"
        unfolding last eq ..
      then have "int (k * s) = int (m * s)"
        unfolding vk N .
      with lt show False by linarith
    qed
    have "Suc k * s \<le> m * s"
      using km by (intro mult_le_mono1) simp
    with N have vk': "int_value sg (of_nat (Suc k * s) :: 'w word) = int (Suc k * s)"
      by (rule int_value_of_nat_le)
    have us: "uint Step = int s"
      unfolding s [symmetric] by simp
    have d: "deref sg Last \<lparr>m_current = of_nat (k * s)\<rparr> = Inr (Enum (of_nat (k * s)))"
      using vk N lt by (simp add: deref_def integer_less_iff)
    have "int_value sg (m_current \<lparr>m_current = of_nat (k * s) :: 'w word\<rparr>) + uint Step
        = int_value sg (of_nat (Suc k * s) :: 'w word)"
      unfolding vk' us by (simp only: enum_iterator.simps vk) simp
    then have "advance sg Step \<lparr>m_current = of_nat (k * s) :: 'w word\<rparr>
        = Inr (\<lparr>m_current = of_nat (k * s)\<rparr>\<lparr>m_current := of_nat (Suc k * s)\<rparr>)"
      by (rule advance_representable)
    then have step: "pre_increment sg Step \<lparr>m_current = of_nat (k * s) :: 'w word\<rparr>
        = Inr (\<lparr>m_current = of_nat (Suc k * s)\<rparr>, \<lparr>m_current = of_nat (Suc k * s)\<rparr>)"
      unfolding pre_increment_def by (simp only:) simp
    have IH: "range_loop fuel sg Last Step \<lparr>m_current = of_nat (Suc k * s)\<rparr> (it_end Last this)
       = Some (map (\<lambda>i. Enum (of_nat (i * s))) [Suc k..<m], Completed)"
      using km Suc.prems by (intro Suc.IH) simp_all
    have "it_ne \<lparr>m_current = of_nat (k * s)\<rparr> (it_end Last this)"
      using ne by (simp add: it_ne_def it_end_def enum_iterator_from_def last)
    then show ?thesis
      using d step IH km by (simp add: upt_conv_Cons del: upt_Suc)
  qed
qed

lemma iterate_unit_step:
  fixes Last :: "'w::len word enum_value"
  assumes N: "int_value sg (underlying Last) = int N" and fuel: "N < fuel"
  shows "iterate fuel sg Last 1 iter = Some (map (\<lambda>i. Enum (of_nat i)) [0..<N], Completed)"
proof -
  have "range_loop fuel sg Last 1 \<lparr>m_current = of_nat (0 * 1)\<rparr> (it_end Last iter)
       = Some (map (\<lambda>i. Enum (of_nat (i * 1))) [0..<N], Completed)"
    by (rule range_loop_aligned [where m = N]) (use N fuel in simp_all)
  then show ?thesis
    by (simp add: iterate_def it_begin_def enum_iterator_default_def)
qed

section \<open>The range loop on a terminal value between two multiples of the step\<close>

text \<open>
  When the terminal value \<open>N\<close> lies strictly between the multiples \<open>q * s\<close> and
  \<open>(q + 1) * s\<close> of the step, and \<open>(q + 1) * s\<close> is a value of \<^verbatim>\<open>integer_type\<close>, the
  cursor never equals \<^verbatim>\<open>end()\<close>: the loop hands the multiples up to \<open>q * s\<close> to the
  body and then dereferences at \<open>(q + 1) * s\<close>, above the terminal value, where the
  assertion of \<^verbatim>\<open>operator*\<close> fails.
\<close>

lemma range_loop_unaligned:
  fixes Last :: "'w::len word enum_value"
  assumes N: "int_value sg (underlying Last) = int N"
    and s: "unat Step = s"
    and lo: "q * s < N" and hi: "N < Suc q * s"
    and rp: "int_value sg (of_nat (Suc q * s) :: 'w word) = int (Suc q * s)"
    and k: "k \<le> Suc q" and fuel: "Suc q - k < fuel"
  shows "range_loop fuel sg Last Step \<lparr>m_current = of_nat (k * s)\<rparr> (it_end Last this)
       = Some (map (\<lambda>i. Enum (of_nat (i * s))) [k..<Suc q], Aborted ContractViolation)"
  using k fuel
proof (induction fuel arbitrary: k)
  case 0
  then show ?case by simp
next
  case (Suc fuel)
  have mult: "int_value sg (of_nat (j * s) :: 'w word) = int (j * s)" if "j \<le> Suc q" for j
  proof -
    from that have "j * s \<le> Suc q * s" by (rule mult_le_mono1)
    with rp show ?thesis by (rule int_value_of_nat_le)
  qed
  have ne: "it_ne \<lparr>m_current = of_nat (j * s)\<rparr> (it_end Last this)"
    if "j \<le> Suc q" for j
  proof -
    have "j * s \<noteq> N"
    proof
      assume e: "j * s = N"
      show False
      proof (cases "j \<le> q")
        case True
        then have "j * s \<le> q * s" by (rule mult_le_mono1)
        with e lo show False by simp
      next
        case False
        with that have "j = Suc q" by simp
        with e hi show False by simp
      qed
    qed
    then have "int (j * s) \<noteq> int N"
      by (simp only: of_nat_eq_iff not_False_eq_True)
    then have "int_value sg (of_nat (j * s) :: 'w word) \<noteq> int_value sg (underlying Last)"
      unfolding mult [OF that] N .
    then have "(of_nat (j * s) :: 'w word) \<noteq> underlying Last" by auto
    then show ?thesis
      unfolding it_ne_def it_end_def enum_iterator_from_def by simp
  qed
  show ?case
  proof (cases "k = Suc q")
    case True
    from hi have "N \<le> Suc q * s" by (rule less_imp_le)
    then have "int N \<le> int (Suc q * s)" by (simp only: of_nat_le_iff)
    then have "\<not> int (Suc q * s) < int N" by (simp only: not_less)
    then have "deref sg Last \<lparr>m_current = of_nat (Suc q * s)\<rparr> = Inl ContractViolation"
      unfolding deref_def integer_less_iff
      by (simp only: enum_iterator.simps mult [OF order_refl] N if_False)
    with ne [of "Suc q"] True show ?thesis by simp
  next
    case False
    with Suc.prems have kq: "k \<le> q" by simp
    then have "k * s \<le> q * s" by (rule mult_le_mono1)
    then have "k * s < N" using lo by (rule le_less_trans)
    then have lt: "int (k * s) < int N" by (simp only: of_nat_less_iff)
    have vk: "int_value sg (of_nat (k * s) :: 'w word) = int (k * s)"
      using kq by (intro mult) simp
    have vk': "int_value sg (of_nat (Suc k * s) :: 'w word) = int (Suc k * s)"
      using kq by (intro mult) simp
    have us: "uint Step = int s"
      unfolding s [symmetric] by simp
    have d: "deref sg Last \<lparr>m_current = of_nat (k * s)\<rparr> = Inr (Enum (of_nat (k * s)))"
      unfolding deref_def integer_less_iff
      using lt by (simp only: enum_iterator.simps vk N if_True)
    have "int_value sg (m_current \<lparr>m_current = of_nat (k * s) :: 'w word\<rparr>) + uint Step
        = int_value sg (of_nat (Suc k * s) :: 'w word)"
      unfolding vk' us by (simp only: enum_iterator.simps vk) simp
    then have "advance sg Step \<lparr>m_current = of_nat (k * s) :: 'w word\<rparr>
        = Inr (\<lparr>m_current = of_nat (k * s)\<rparr>\<lparr>m_current := of_nat (Suc k * s)\<rparr>)"
      by (rule advance_representable)
    then have step: "pre_increment sg Step \<lparr>m_current = of_nat (k * s) :: 'w word\<rparr>
        = Inr (\<lparr>m_current = of_nat (Suc k * s)\<rparr>, \<lparr>m_current = of_nat (Suc k * s)\<rparr>)"
      unfolding pre_increment_def by (simp only:) simp
    have IH: "range_loop fuel sg Last Step \<lparr>m_current = of_nat (Suc k * s)\<rparr> (it_end Last this)
       = Some (map (\<lambda>i. Enum (of_nat (i * s))) [Suc k..<Suc q], Aborted ContractViolation)"
      using kq Suc.prems by (intro Suc.IH) simp_all
    have "k < Suc q" using kq by simp
    with ne [of k] d step IH show ?thesis
      by (simp add: upt_conv_Cons del: upt_Suc)
  qed
qed

lemma iterate_step_unaligned:
  fixes Last :: "'w::len word enum_value"
  assumes N: "int_value sg (underlying Last) = int N"
    and lo: "q * unat Step < N" and hi: "N < Suc q * unat Step"
    and rp: "int_value sg (of_nat (Suc q * unat Step) :: 'w word) = int (Suc q * unat Step)"
    and fuel: "Suc q < fuel"
  shows "iterate fuel sg Last Step iter
       = Some (map (\<lambda>i. Enum (of_nat (i * unat Step))) [0..<Suc q], Aborted ContractViolation)"
proof -
  have "range_loop fuel sg Last Step \<lparr>m_current = of_nat (0 * unat Step)\<rparr> (it_end Last iter)
       = Some (map (\<lambda>i. Enum (of_nat (i * unat Step))) [0..<Suc q], Aborted ContractViolation)"
    using N refl lo hi rp by (rule range_loop_unaligned) (use fuel in simp_all)
  then show ?thesis
    by (simp add: iterate_def it_begin_def enum_iterator_default_def)
qed

section \<open>Positions after an increment\<close>

lemma int_value_zero: "int_value sg (0 :: 'w::len word) = 0"
  by (cases sg) (simp_all add: int_value_def)

lemma advance_within:
  fixes it :: "'w::len word enum_iterator" and b :: "'w word"
  assumes nn: "0 \<le> int_value sg (m_current it)"
    and le: "int_value sg (m_current it) + uint Step \<le> int_value sg b"
  shows "\<exists>y. advance sg Step it = Inr (it\<lparr>m_current := y\<rparr>) \<and>
             int_value sg y = int_value sg (m_current it) + uint Step"
proof -
  let ?t = "int_value sg (m_current it) + uint Step"
  have t0: "0 \<le> ?t" using nn by simp
  then have b: "int_value sg b = int (nat (int_value sg b))" using le by simp
  have "int_value sg (of_nat (nat ?t) :: 'w word) = int (nat ?t)"
    using b by (rule int_value_of_nat_le) (use le in simp)
  with t0 have y: "?t = int_value sg (of_nat (nat ?t) :: 'w word)" by simp
  then have "advance sg Step it = Inr (it\<lparr>m_current := of_nat (nat ?t)\<rparr>)"
    by (rule advance_representable)
  with y show ?thesis by metis
qed

section \<open>Indices of an array whose length is the terminal value\<close>

lemma size_array_terminal:
  fixes ArraySize :: "'w::len word enum_value"
  assumes w: "LENGTH('w) \<le> 64" and N: "int_value sg (underlying ArraySize) = int N"
  shows "uint (size_array sg ArraySize) = int N" and "unat (size_array sg ArraySize) = N"
proof -
  have "0 \<le> int_value sg (underlying ArraySize)" using N by simp
  with w have "uint (to_size_t sg ArraySize) = int_value sg (underlying ArraySize)"
    by (rule uint_to_size_t_nonneg)
  then show u: "uint (size_array sg ArraySize) = int N"
    by (simp add: size_array_def N)
  have "int (unat (size_array sg ArraySize)) = int N"
    unfolding u [symmetric] by simp
  then show "unat (size_array sg ArraySize) = N"
    by (simp only: of_nat_eq_iff)
qed

lemma to_size_t_key:
  fixes ArraySize :: "'w::len word enum_value"
  assumes w: "LENGTH('w) \<le> 64" and N: "int_value sg (underlying ArraySize) = int N"
    and i: "i < N"
  shows "to_size_t sg (Enum (of_nat i :: 'w word)) = of_nat i"
    and "unat (to_size_t sg (Enum (of_nat i :: 'w word))) = i"
    and "to_size_t sg (Enum (of_nat i :: 'w word)) < size_array sg ArraySize"
proof -
  have v: "int_value sg (of_nat i :: 'w word) = int i"
    using N by (rule int_value_of_nat_le) (use i in simp)
  then have u: "uint (to_size_t sg (Enum (of_nat i :: 'w word))) = int i"
    using uint_to_size_t_nonneg [OF w, of sg "Enum (of_nat i)"] by simp
  show "to_size_t sg (Enum (of_nat i :: 'w word)) = of_nat i"
    by (simp add: to_size_t_eq v)
  have "int (unat (to_size_t sg (Enum (of_nat i :: 'w word)))) = int i"
    unfolding u [symmetric] by simp
  then show "unat (to_size_t sg (Enum (of_nat i :: 'w word))) = i"
    by (simp only: of_nat_eq_iff)
  show "to_size_t sg (Enum (of_nat i :: 'w word)) < size_array sg ArraySize"
    unfolding word_less_def u size_array_terminal(1) [OF w N] using i by simp
qed

lemma position_index:
  fixes ArraySize :: "'w::len word enum_value"
  assumes w: "LENGTH('w) \<le> 64" and N: "int_value sg (underlying ArraySize) = int N"
    and k: "k < N"
  shows "unat (of_nat k :: size_t) = k" and "(of_nat k :: size_t) < size_array sg ArraySize"
proof -
  from to_size_t_key [OF w N k]
  show "unat (of_nat k :: size_t) = k" and "(of_nat k :: size_t) < size_array sg ArraySize"
    by simp_all
qed


section \<open>The pointer loops\<close>

lemma pointer_loop_to_end:
  "p \<le> length mem \<Longrightarrow> pointer_loop mem p (length mem) = (drop p mem, Completed)"
proof (induction "length mem - p" arbitrary: p)
  case 0
  then have "p = length mem" by simp
  then show ?case by (simp add: pointer_loop.simps)
next
  case (Suc d)
  then have p: "p < length mem" by simp
  with Suc have IH: "pointer_loop mem (Suc p) (length mem) = (drop (Suc p) mem, Completed)"
    by (intro Suc.hyps) simp_all
  from p have "drop p mem = mem ! p # drop (Suc p) mem"
    by (simp add: Cons_nth_drop_Suc)
  with p IH show ?case
    by (subst pointer_loop.simps) (simp add: pointer_deref_def)
qed

lemma reverse_loop_to_begin:
  "b \<le> length mem \<Longrightarrow>
     reverse_loop mem \<lparr>current = b\<rparr> \<lparr>current = 0\<rparr> = (rev (take b mem), Completed)"
proof (induction b)
  case 0
  then show ?case by (simp add: reverse_loop.simps reverse_ne_def)
next
  case (Suc b)
  then have b: "b < length mem" by simp
  then have IH: "reverse_loop mem \<lparr>current = b\<rparr> \<lparr>current = 0\<rparr> = (rev (take b mem), Completed)"
    by (intro Suc.IH) simp
  from b have "take (Suc b) mem = take b mem @ [mem ! b]"
    by (rule take_Suc_conv_app_nth)
  with b IH show ?case
    by (subst reverse_loop.simps)
      (simp add: reverse_ne_def reverse_deref_def pointer_deref_def reverse_increment_def)
qed

section \<open>Properties of \<^verbatim>\<open>enum_iterator\<close>\<close>

text \<open>
  C7. Dereferencing an iterator fails with a contract violation exactly when its position
  is greater than or equal to the terminal value \<^verbatim>\<open>Last\<close> (as values of \<^verbatim>\<open>integer_type\<close>);
  when the position is strictly below \<^verbatim>\<open>Last\<close> it succeeds and returns the enumeration
  value at the current position.
\<close>

theorem deref_contract:
  fixes Last :: "'w::len word enum_value"
  shows "(deref sg Last it = Inl ContractViolation \<longleftrightarrow>
            int_value sg (underlying Last) \<le> int_value sg (m_current it)) \<and>
         (int_value sg (m_current it) < int_value sg (underlying Last) \<longrightarrow>
            deref sg Last it = Inr (Enum (m_current it)))"
  by (simp add: deref_def integer_less_iff)

theorem deref_contract_witness:
  "deref Signed (Enum (3 :: 32 word)) \<lparr>m_current = 3\<rparr> = Inl ContractViolation \<and>
   deref Signed (Enum (3 :: 32 word)) \<lparr>m_current = 2\<rparr> = Inr (Enum 2) \<and>
   deref Signed (Enum (3 :: 32 word)) \<lparr>m_current = - 1\<rparr> = Inr (Enum (- 1)) \<and>
   deref Unsigned (Enum (3 :: 32 word)) \<lparr>m_current = 5\<rparr> = Inl ContractViolation"
proof -
  have a: "int_value Signed (underlying (Enum (3 :: 32 word)))
      \<le> int_value Signed (m_current \<lparr>m_current = 3 :: 32 word\<rparr>)"
    by (simp add: int_value_def)
  have b: "int_value Signed (m_current \<lparr>m_current = 2 :: 32 word\<rparr>)
      < int_value Signed (underlying (Enum (3 :: 32 word)))"
    by (simp add: int_value_def)
  have c: "int_value Signed (m_current \<lparr>m_current = - 1 :: 32 word\<rparr>)
      < int_value Signed (underlying (Enum (3 :: 32 word)))"
    by (simp add: int_value_def)
  have d: "int_value Unsigned (underlying (Enum (3 :: 32 word)))
      \<le> int_value Unsigned (m_current \<lparr>m_current = 5 :: 32 word\<rparr>)"
    by (simp add: int_value_def)
  from a deref_contract [of Signed "Enum 3" "\<lparr>m_current = 3\<rparr>"]
  have A: "deref Signed (Enum (3 :: 32 word)) \<lparr>m_current = 3\<rparr> = Inl ContractViolation"
    by blast
  from b deref_contract [of Signed "Enum 3" "\<lparr>m_current = 2\<rparr>"]
  have B: "deref Signed (Enum (3 :: 32 word)) \<lparr>m_current = 2\<rparr>
      = Inr (Enum (m_current \<lparr>m_current = 2 :: 32 word\<rparr>))"
    by blast
  from c deref_contract [of Signed "Enum 3" "\<lparr>m_current = - 1\<rparr>"]
  have C: "deref Signed (Enum (3 :: 32 word)) \<lparr>m_current = - 1\<rparr>
      = Inr (Enum (m_current \<lparr>m_current = - 1 :: 32 word\<rparr>))"
    by blast
  from d deref_contract [of Unsigned "Enum 3" "\<lparr>m_current = 5\<rparr>"]
  have D: "deref Unsigned (Enum (3 :: 32 word)) \<lparr>m_current = 5\<rparr> = Inl ContractViolation"
    by blast
  from A B C D show ?thesis by simp
qed




text \<open>
  C1. For an enumeration with terminal value \<open>N\<close>, iterating with step 1 from
  \<^verbatim>\<open>begin()\<close> to \<^verbatim>\<open>end()\<close> completes (given fuel for its \<open>N\<close> rounds and the final
  comparison) and yields exactly \<open>N\<close> values, the integers \<open>0, 1, ..., N - 1\<close> as
  enumeration values in strictly ascending order; the terminal value is not among them.
\<close>

theorem iterate_step_one:
  fixes Last :: "'w::len word enum_value"
  assumes N: "int_value sg (underlying Last) = int N" and fuel: "N < fuel"
  shows "\<exists>vs. iterate fuel sg Last 1 iter = Some (vs, Completed) \<and>
           length vs = N \<and>
           vs = map (\<lambda>i. Enum (of_nat i)) [0..<N] \<and>
           map (\<lambda>v. int_value sg (underlying v)) vs = map int [0..<N] \<and>
           sorted_wrt (<) (map (\<lambda>v. int_value sg (underlying v)) vs) \<and>
           Last \<notin> set vs"
proof -
  let ?vs = "map (\<lambda>i. Enum (of_nat i) :: 'w word enum_value) [0..<N]"
  have run: "iterate fuel sg Last 1 iter = Some (?vs, Completed)"
    using N fuel by (rule iterate_unit_step)
  have vals: "map (\<lambda>v. int_value sg (underlying v)) ?vs = map int [0..<N]"
  proof -
    have "int_value sg (of_nat i :: 'w word) = int i" if "i < N" for i
      using N by (rule int_value_of_nat_le) (use that in simp)
    then show ?thesis by simp
  qed
  have asc: "sorted_wrt (<) (map int [0..<N])"
    by (simp add: sorted_wrt_map)
  have notin: "Last \<notin> set ?vs"
  proof
    assume "Last \<in> set ?vs"
    then have "(\<lambda>v. int_value sg (underlying v)) Last \<in> (\<lambda>v. int_value sg (underlying v)) ` set ?vs"
      by (rule imageI)
    then have "int_value sg (underlying Last) \<in> set (map (\<lambda>v. int_value sg (underlying v)) ?vs)"
      by (simp only: set_map)
    then have "int N \<in> set (map int [0..<N])"
      unfolding vals N .
    then show False by auto
  qed
  from run vals asc notin show ?thesis
    by (intro exI [of _ ?vs]) (simp only: length_map length_upt, simp)
qed

theorem iterate_step_one_witness:
  "iterate 4 Signed (Enum (3 :: 32 word)) 1 enum_iterator_default
     = Some ([Enum 0, Enum 1, Enum 2], Completed)"
proof -
  have h: "int_value Signed (underlying (Enum (3 :: 32 word))) = int 3"
    by (simp add: int_value_def)
  have f: "(3::nat) < 4" by simp
  from iterate_step_one [OF h f, of enum_iterator_default]
  show ?thesis by (simp add: upt_rec)
qed

text \<open>
  When the terminal value is a multiple \<open>m * S\<close> of a step \<open>S > 1\<close>, the loop from
  \<^verbatim>\<open>begin()\<close> to \<^verbatim>\<open>end()\<close> completes and yields the multiples of \<open>S\<close> below the terminal
  value.
\<close>

lemma iterate_step_aligned:
  fixes Last :: "'w::len word enum_value"
  assumes S: "1 < unat Step"
    and N: "int_value sg (underlying Last) = int (m * unat Step)"
    and fuel: "m < fuel"
  shows "iterate fuel sg Last Step iter
       = Some (map (\<lambda>i. Enum (of_nat (i * unat Step))) [0..<m], Completed)"
proof -
  have "range_loop fuel sg Last Step \<lparr>m_current = of_nat (0 * unat Step)\<rparr> (it_end Last iter)
       = Some (map (\<lambda>i. Enum (of_nat (i * unat Step))) [0..<m], Completed)"
    using N refl by (rule range_loop_aligned) (use S fuel in simp_all)
  then show ?thesis
    by (simp add: iterate_def it_begin_def enum_iterator_default_def)
qed

text \<open>
  C3. The claim is that for every step \<open>S > 1\<close> and terminal value \<open>N\<close> the iteration
  from \<^verbatim>\<open>begin()\<close> to \<^verbatim>\<open>end()\<close> yields exactly the values \<open>0, S, 2S, ...\<close> below \<open>N\<close>.
  The header does not do this when \<open>S\<close> does not divide \<open>N\<close>, which is the use its own
  comment describes: constants spaced by the step, followed by a \<^verbatim>\<open>Count\<close> member. For
  \<^verbatim>\<open>enum class E { A = 0, B = 2, C = 4, Count }\<close>, where \<^verbatim>\<open>Count\<close> is 5, and
  \<^verbatim>\<open>Step = 2\<close> the cursor goes 0, 2, 4, 6: it steps over 5, so \<^verbatim>\<open>c != end()\<close> stays
  true, and the dereference at 6 fails the assertion of \<^verbatim>\<open>operator*\<close>. The loop hands
  \<^verbatim>\<open>A\<close>, \<^verbatim>\<open>B\<close>, \<^verbatim>\<open>C\<close> to its body and then stops in the contract violation instead of
  ending at \<^verbatim>\<open>end()\<close>.
\<close>

theorem iterate_step_two_count_five:
  "iterate 4 Signed (Enum (5 :: 32 word)) 2 enum_iterator_default
     = Some ([Enum 0, Enum 2, Enum 4], Aborted ContractViolation)"
proof -
  have fuel: "(4::nat) = Suc (Suc (Suc (Suc 0)))" by simp
  show ?thesis
    unfolding iterate_def fuel
    by (simp add: it_begin_def it_end_def enum_iterator_default_def
        enum_iterator_from_def it_ne_def deref_def integer_less_def word_sless_alt
        pre_increment_def advance_def)
qed

text \<open>
  C4, as stated, fails: \<^verbatim>\<open>end()\<close> builds an iterator whose position is the terminal
  value itself, which is not in the half-open range.
\<close>

theorem position_half_open_counterexample:
  "\<not> position_in_half_open_range Signed (Enum (3 :: 32 word))
        (it_end (Enum (3 :: 32 word)) enum_iterator_default)"
  by (simp add: position_in_half_open_range_def it_end_def enum_iterator_from_def int_value_def)

text \<open>
  C4, amended. For a terminal value that is not negative, the position is in the closed
  range \<open>[0, Last]\<close> after the default constructor, \<^verbatim>\<open>begin()\<close> and \<^verbatim>\<open>end()\<close>:
  \<^verbatim>\<open>end()\<close> puts it at the terminal value itself, the default constructor and
  \<^verbatim>\<open>begin()\<close> at 0, which is in the half-open range \<open>[0, Last)\<close> when the terminal
  value is positive. The constructor from an enumeration value takes the integer of that
  value as the position and a copy is the same iterator. An increment from a position
  \<open>p \<ge> 0\<close> with \<open>p + Step \<le> Last\<close>, so in particular an increment by 1 from a
  position in the half-open range, succeeds and leaves the position in the closed range.
\<close>

theorem position_closed_range:
  fixes Last :: "'w::len word enum_value"
  assumes N: "0 \<le> int_value sg (underlying Last)"
  shows "position_in_closed_range sg Last enum_iterator_default \<and>
         position_in_closed_range sg Last (it_begin it) \<and>
         position_in_closed_range sg Last (it_end Last it) \<and>
         m_current (it_end Last it) = underlying Last \<and>
         m_current (enum_iterator_from index) = underlying index \<and>
         it_copy it = it \<and>
         (0 < int_value sg (underlying Last) \<longrightarrow>
            position_in_half_open_range sg Last enum_iterator_default \<and>
            position_in_half_open_range sg Last (it_begin it)) \<and>
         (0 \<le> int_value sg (m_current it) \<and>
          int_value sg (m_current it) + uint Step \<le> int_value sg (underlying Last) \<longrightarrow>
            (\<exists>returned this. pre_increment sg Step it = Inr (returned, this) \<and>
               position_in_closed_range sg Last returned \<and>
               position_in_closed_range sg Last this) \<and>
            (\<exists>returned this. post_increment sg Step it = Inr (returned, this) \<and>
               position_in_closed_range sg Last this)) \<and>
         (position_in_half_open_range sg Last it \<longrightarrow>
            (\<exists>returned this. pre_increment sg 1 it = Inr (returned, this) \<and>
               position_in_closed_range sg Last returned \<and>
               position_in_closed_range sg Last this) \<and>
            (\<exists>returned this. post_increment sg 1 it = Inr (returned, this) \<and>
               position_in_closed_range sg Last this))"
proof -
  have ctor: "position_in_closed_range sg Last enum_iterator_default"
    using N by (simp add: position_in_closed_range_def enum_iterator_default_def int_value_zero)
  have e: "position_in_closed_range sg Last (it_end Last it)"
    using N by (simp add: position_in_closed_range_def it_end_def enum_iterator_from_def)
  have half: "position_in_half_open_range sg Last enum_iterator_default"
    if "0 < int_value sg (underlying Last)"
    using that
    by (simp add: position_in_half_open_range_def enum_iterator_default_def int_value_zero)
  have inc: "\<exists>this. advance sg S it = Inr this \<and> position_in_closed_range sg Last this"
    if nn: "0 \<le> int_value sg (m_current it)"
      and le: "int_value sg (m_current it) + uint S \<le> int_value sg (underlying Last)" for S
  proof -
    from nn le obtain y where y: "advance sg S it = Inr (it\<lparr>m_current := y\<rparr>)"
      and v: "int_value sg y = int_value sg (m_current it) + uint S"
      using advance_within by blast
    from v nn le have "position_in_closed_range sg Last (it\<lparr>m_current := y\<rparr>)"
      by (simp add: position_in_closed_range_def)
    with y show ?thesis by blast
  qed
  have incs: "(\<exists>returned this. pre_increment sg S it = Inr (returned, this) \<and>
               position_in_closed_range sg Last returned \<and>
               position_in_closed_range sg Last this) \<and>
            (\<exists>returned this. post_increment sg S it = Inr (returned, this) \<and>
               position_in_closed_range sg Last this)"
    if "0 \<le> int_value sg (m_current it)"
      and "int_value sg (m_current it) + uint S \<le> int_value sg (underlying Last)" for S
  proof -
    from that obtain this where "advance sg S it = Inr this"
      and "position_in_closed_range sg Last this"
      using inc by blast
    then show ?thesis
      by (simp add: pre_increment_def post_increment_def)
  qed
  have incs1: "(\<exists>returned this. pre_increment sg 1 it = Inr (returned, this) \<and>
               position_in_closed_range sg Last returned \<and>
               position_in_closed_range sg Last this) \<and>
            (\<exists>returned this. post_increment sg 1 it = Inr (returned, this) \<and>
               position_in_closed_range sg Last this)"
    if "position_in_half_open_range sg Last it"
    using that by (intro incs) (simp_all add: position_in_half_open_range_def)
  have ops: "position_in_closed_range sg Last (it_begin it)"
    "m_current (it_end Last it) = underlying Last"
    "m_current (enum_iterator_from index) = underlying index"
    "it_copy it = it"
    using ctor by (simp_all add: it_begin_def it_copy_def it_end_def enum_iterator_from_def)
  have half': "position_in_half_open_range sg Last (it_begin it)"
    if "0 < int_value sg (underlying Last)"
    using half [OF that] by (simp add: it_begin_def)
  from ctor e ops half half' incs incs1 show ?thesis
    by blast
qed

theorem position_closed_range_witness:
  "position_in_closed_range Signed (Enum (3 :: 32 word)) (it_end (Enum 3) enum_iterator_default) \<and>
   position_in_half_open_range Signed (Enum (3 :: 32 word)) (it_begin enum_iterator_default) \<and>
   pre_increment Signed 1 \<lparr>m_current = 2 :: 32 word\<rparr>
     = Inr (\<lparr>m_current = 3\<rparr>, \<lparr>m_current = 3\<rparr>) \<and>
   position_in_closed_range Signed (Enum (3 :: 32 word)) \<lparr>m_current = 3\<rparr>"
proof -
  have N: "0 \<le> int_value Signed (underlying (Enum (3 :: 32 word)))"
    by (simp add: int_value_def)
  have P: "0 < int_value Signed (underlying (Enum (3 :: 32 word)))"
    by (simp add: int_value_def)
  have H: "position_in_half_open_range Signed (Enum (3 :: 32 word)) \<lparr>m_current = 2\<rparr>"
    by (simp add: position_in_half_open_range_def int_value_def)
  from position_closed_range [OF N, of enum_iterator_default] P
  have 1: "position_in_closed_range Signed (Enum (3 :: 32 word)) (it_end (Enum 3) enum_iterator_default)"
    and 2: "position_in_half_open_range Signed (Enum (3 :: 32 word)) (it_begin enum_iterator_default)"
    by blast+
  from position_closed_range [OF N, of "\<lparr>m_current = 2\<rparr>"] H
  obtain returned this
    where 3: "pre_increment Signed 1 \<lparr>m_current = 2 :: 32 word\<rparr> = Inr (returned, this)"
      and 4: "position_in_closed_range Signed (Enum (3 :: 32 word)) this"
    by blast
  have "pre_increment Signed 1 \<lparr>m_current = 2 :: 32 word\<rparr>
      = Inr (\<lparr>m_current = 3\<rparr>, \<lparr>m_current = 3\<rparr>)"
    by (simp add: pre_increment_def advance_def)
  with 3 have "this = \<lparr>m_current = 3\<rparr>" and "returned = \<lparr>m_current = 3\<rparr>"
    by auto
  with 1 2 3 4 show ?thesis by simp
qed

section \<open>Properties of \<^verbatim>\<open>enum_array\<close>\<close>

text \<open>
  C2. For an array of length \<open>N\<close> (the terminal value of its enumeration) holding the
  elements \<open>vs = [v0, ..., v(N-1)]\<close> it was constructed from: \<^verbatim>\<open>array[k]\<close> is \<open>vk\<close>
  for every position \<open>k < N\<close>, \<^verbatim>\<open>array[e]\<close> is \<open>vi\<close> for the enumeration constant \<open>e\<close>
  of every integer \<open>i < N\<close>, and access by an enumeration value is access by position
  at \<^verbatim>\<open>std::size_t(e)\<close>. The underlying type has at most the 64 bits of \<^verbatim>\<open>std::size_t\<close>.
\<close>

theorem subscript_construction_list:
  fixes ArraySize :: "'w::len word enum_value"
  assumes w: "LENGTH('w) \<le> 64" and N: "int_value sg (underlying ArraySize) = int N"
    and vs: "m_elements a = vs" and len: "length vs = N"
  shows "well_formed sg ArraySize a \<and>
         (\<forall>k<N. subscript_pos_const sg ArraySize a (of_nat k) = Inr (vs ! k) \<and>
                 subscript_pos sg ArraySize a (of_nat k) = Inr k \<and>
                 read_slot a k = vs ! k) \<and>
         (\<forall>i<N. subscript_key_const sg ArraySize a (Enum (of_nat i)) = Inr (vs ! i) \<and>
                 subscript_key sg ArraySize a (Enum (of_nat i)) = Inr i) \<and>
         (\<forall>e. subscript_key_const sg ArraySize a e
                = subscript_pos_const sg ArraySize a (to_size_t sg e) \<and>
              subscript_key sg ArraySize a e = subscript_pos sg ArraySize a (to_size_t sg e))"
proof (intro conjI allI impI)
  show "well_formed sg ArraySize a"
    by (simp add: well_formed_def vs len size_array_terminal(2) [OF w N])
next
  fix k assume k: "k < N"
  from position_index [OF w N k]
  show "subscript_pos_const sg ArraySize a (of_nat k) = Inr (vs ! k)"
    and "subscript_pos sg ArraySize a (of_nat k) = Inr k"
    by (simp_all add: subscript_pos_const_def subscript_pos_def vs)
  show "read_slot a k = vs ! k"
    by (simp add: read_slot_def vs)
next
  fix i assume i: "i < N"
  from to_size_t_key(2,3) [OF w N i]
  show "subscript_key_const sg ArraySize a (Enum (of_nat i)) = Inr (vs ! i)"
    and "subscript_key sg ArraySize a (Enum (of_nat i)) = Inr i"
    by (simp_all add: subscript_key_const_def subscript_key_def vs)
next
  fix e :: "'w word enum_value"
  show "subscript_key_const sg ArraySize a e = subscript_pos_const sg ArraySize a (to_size_t sg e)"
    by (simp add: subscript_key_const_def subscript_pos_const_def)
  show "subscript_key sg ArraySize a e = subscript_pos sg ArraySize a (to_size_t sg e)"
    by (simp add: subscript_key_def subscript_pos_def)
qed

theorem subscript_construction_list_witness:
  "subscript_pos_const Signed (Enum (3 :: 32 word)) \<lparr>m_elements = [''Bar'', ''Baz'', ''Fooz'']\<rparr> 1
     = Inr ''Baz'' \<and>
   subscript_key_const Signed (Enum (3 :: 32 word)) \<lparr>m_elements = [''Bar'', ''Baz'', ''Fooz'']\<rparr> (Enum 2)
     = Inr ''Fooz''"
proof -
  have w: "LENGTH(32) \<le> 64" by simp
  have N: "int_value Signed (underlying (Enum (3 :: 32 word))) = int 3"
    by (simp add: int_value_def)
  have vs: "m_elements \<lparr>m_elements = [''Bar'', ''Baz'', ''Fooz'']\<rparr> = [''Bar'', ''Baz'', ''Fooz'']"
    by simp
  have len: "length [''Bar'', ''Baz'', ''Fooz''] = 3" by simp
  note inst = subscript_construction_list [OF w N vs len]
  from inst have pos: "\<forall>k<3. subscript_pos_const Signed (Enum (3 :: 32 word))
      \<lparr>m_elements = [''Bar'', ''Baz'', ''Fooz'']\<rparr> (of_nat k) = Inr ([''Bar'', ''Baz'', ''Fooz''] ! k)"
    by blast
  from inst have key: "\<forall>i<3. subscript_key_const Signed (Enum (3 :: 32 word))
      \<lparr>m_elements = [''Bar'', ''Baz'', ''Fooz'']\<rparr> (Enum (of_nat i)) = Inr ([''Bar'', ''Baz'', ''Fooz''] ! i)"
    by blast
  from pos [rule_format, of 1] have "subscript_pos_const Signed (Enum (3 :: 32 word))
      \<lparr>m_elements = [''Bar'', ''Baz'', ''Fooz'']\<rparr> 1 = Inr ''Baz''"
    by simp
  moreover from key [rule_format, of 2] have "subscript_key_const Signed (Enum (3 :: 32 word))
      \<lparr>m_elements = [''Bar'', ''Baz'', ''Fooz'']\<rparr> (Enum 2) = Inr ''Fooz''"
    by simp
  ultimately show ?thesis by simp
qed

text \<open>
  C5. For an array of length \<open>N\<close> holding the elements \<open>vs\<close> it was constructed from,
  iterating \<^verbatim>\<open>keys()\<close> completes and yields exactly \<open>N\<close> enumeration values, those of the
  integers \<open>0, ..., N - 1\<close> in this order, which is the order of the positions: the
  \<open>i\<close>-th key indexes the element at position \<open>i\<close>, and pairing the keys with the
  elements of the forward traversal gives the construction list of (key, value) pairs.
\<close>

theorem keys_pair_with_elements:
  fixes ArraySize :: "'w::len word enum_value"
  assumes w: "LENGTH('w) \<le> 64" and N: "int_value sg (underlying ArraySize) = int N"
    and vs: "m_elements a = vs" and len: "length vs = N"
    and fuel: "N < fuel"
  shows "\<exists>ks. iterate fuel sg ArraySize key_iterator_Step keys = Some (ks, Completed) \<and>
           length ks = N \<and>
           ks = map (\<lambda>i. Enum (of_nat i)) [0..<N] \<and>
           forward_traversal sg ArraySize a = (vs, Completed) \<and>
           (\<forall>i<N. subscript_key_const sg ArraySize a (ks ! i) = Inr (vs ! i) \<and>
                   subscript_pos_const sg ArraySize a (of_nat i) = Inr (vs ! i)) \<and>
           map (subscript_key_const sg ArraySize a) ks = map Inr vs \<and>
           zip ks (fst (forward_traversal sg ArraySize a))
             = map (\<lambda>i. (Enum (of_nat i), vs ! i)) [0..<N]"
proof -
  let ?ks = "map (\<lambda>i. Enum (of_nat i) :: 'w word enum_value) [0..<N]"
  have run: "iterate fuel sg ArraySize key_iterator_Step keys = Some (?ks, Completed)"
    unfolding key_iterator_Step_def using N fuel by (rule iterate_unit_step)
  have wf: "well_formed sg ArraySize a"
    by (simp add: well_formed_def vs len size_array_terminal(2) [OF w N])
  then have "array_end sg ArraySize a = length (m_elements a)"
    by (simp add: well_formed_def array_end_def)
  then have fwd: "forward_traversal sg ArraySize a = (vs, Completed)"
    using pointer_loop_to_end [of 0 "m_elements a"]
    by (simp add: forward_traversal_def array_begin_def vs)
  have key: "subscript_key_const sg ArraySize a (Enum (of_nat i)) = Inr (vs ! i)" if "i < N" for i
    using to_size_t_key(2,3) [OF w N that] by (simp add: subscript_key_const_def vs)
  have pos: "subscript_pos_const sg ArraySize a (of_nat i) = Inr (vs ! i)" if "i < N" for i
    using position_index [OF w N that] by (simp add: subscript_pos_const_def vs)
  have mp: "map (subscript_key_const sg ArraySize a) ?ks = map Inr vs"
    by (rule nth_equalityI) (simp_all add: len key)
  have zp: "zip ?ks vs = map (\<lambda>i. (Enum (of_nat i), vs ! i)) [0..<N]"
    by (rule nth_equalityI) (simp_all add: len)
  show ?thesis
    apply (intro exI [of _ ?ks] conjI)
          apply (rule run)
         apply simp
        apply (rule refl)
       apply (rule fwd)
      apply (simp add: key pos)
     apply (rule mp)
    apply (simp only: fwd fst_conv zp)
    done
qed

theorem keys_pair_with_elements_witness:
  "iterate 4 Signed (Enum (3 :: 32 word)) key_iterator_Step keys
     = Some ([Enum 0, Enum 1, Enum 2], Completed) \<and>
   zip [Enum 0, Enum 1, Enum (2 :: 32 word)]
       (fst (forward_traversal Signed (Enum (3 :: 32 word)) \<lparr>m_elements = [''Bar'', ''Baz'', ''Fooz'']\<rparr>))
     = [(Enum 0, ''Bar''), (Enum 1, ''Baz''), (Enum 2, ''Fooz'')]"
proof -
  have w: "LENGTH(32) \<le> 64" by simp
  have N: "int_value Signed (underlying (Enum (3 :: 32 word))) = int 3"
    by (simp add: int_value_def)
  have vs: "m_elements \<lparr>m_elements = [''Bar'', ''Baz'', ''Fooz'']\<rparr> = [''Bar'', ''Baz'', ''Fooz'']"
    by simp
  have len: "length [''Bar'', ''Baz'', ''Fooz''] = 3" by simp
  have f: "(3::nat) < 4" by simp
  from keys_pair_with_elements [OF w N vs len f]
  show ?thesis by (simp add: upt_rec)
qed




text \<open>
  C9. For an array holding its \<^verbatim>\<open>size()\<close> elements, the forward traversal from
  \<^verbatim>\<open>begin()\<close> to \<^verbatim>\<open>end()\<close> yields the elements in position order, the reverse
  traversal from \<^verbatim>\<open>rbegin()\<close> to \<^verbatim>\<open>rend()\<close> yields them in exactly the reverse order,
  and reversing the reverse traversal gives the forward sequence again.
\<close>

theorem reverse_traversal_reverses:
  fixes ArraySize :: "'w::len word enum_value"
  assumes wf: "well_formed sg ArraySize a"
  shows "forward_traversal sg ArraySize a = (m_elements a, Completed) \<and>
         reverse_traversal sg ArraySize a = (rev (m_elements a), Completed) \<and>
         fst (reverse_traversal sg ArraySize a) = rev (fst (forward_traversal sg ArraySize a)) \<and>
         rev (fst (reverse_traversal sg ArraySize a)) = fst (forward_traversal sg ArraySize a)"
proof -
  from wf have e: "array_end sg ArraySize a = length (m_elements a)"
    by (simp add: well_formed_def array_end_def)
  have f: "forward_traversal sg ArraySize a = (m_elements a, Completed)"
    using pointer_loop_to_end [of 0 "m_elements a"]
    by (simp add: forward_traversal_def array_begin_def e)
  have r: "reverse_traversal sg ArraySize a = (rev (m_elements a), Completed)"
    using reverse_loop_to_begin [of "length (m_elements a)" "m_elements a"]
    by (simp add: reverse_traversal_def array_rbegin_def array_rend_def array_begin_def e)
  from f r show ?thesis by simp
qed

theorem reverse_traversal_reverses_witness:
  "forward_traversal Signed (Enum (3 :: 32 word)) \<lparr>m_elements = [''Bar'', ''Baz'', ''Fooz'']\<rparr>
     = ([''Bar'', ''Baz'', ''Fooz''], Completed) \<and>
   reverse_traversal Signed (Enum (3 :: 32 word)) \<lparr>m_elements = [''Bar'', ''Baz'', ''Fooz'']\<rparr>
     = ([''Fooz'', ''Baz'', ''Bar''], Completed)"
proof -
  have wf: "well_formed Signed (Enum (3 :: 32 word)) \<lparr>m_elements = [''Bar'', ''Baz'', ''Fooz'']\<rparr>"
    by (simp add: well_formed_def size_array_def to_size_t_def)
  from reverse_traversal_reverses [OF wf] show ?thesis by simp
qed

text \<open>
  C10. Assigning through the mutable \<^verbatim>\<open>operator[]\<close> at an index in range, given by
  position or by enumeration value, succeeds and changes only the slot at that position:
  the slot holds the assigned value, every other slot is unchanged, and the array keeps
  its length, which is \<^verbatim>\<open>size()\<close>.
\<close>

theorem assign_changes_one_slot:
  fixes ArraySize :: "'w::len word enum_value"
  assumes wf: "well_formed sg ArraySize a"
  shows "(index < size_array sg ArraySize \<longrightarrow>
           (\<exists>a'. assign_pos sg ArraySize a index v = Inr a' \<and>
                 well_formed sg ArraySize a' \<and>
                 length (m_elements a') = length (m_elements a) \<and>
                 m_elements a' ! unat index = v \<and>
                 (\<forall>j. j \<noteq> unat index \<longrightarrow> m_elements a' ! j = m_elements a ! j))) \<and>
         (to_size_t sg key < size_array sg ArraySize \<longrightarrow>
           (\<exists>a'. assign_key sg ArraySize a key v = Inr a' \<and>
                 well_formed sg ArraySize a' \<and>
                 length (m_elements a') = length (m_elements a) \<and>
                 m_elements a' ! unat (to_size_t sg key) = v \<and>
                 (\<forall>j. j \<noteq> unat (to_size_t sg key) \<longrightarrow> m_elements a' ! j = m_elements a ! j)))"
proof -
  have slot: "well_formed sg ArraySize (write_slot a (unat i) v) \<and>
      length (m_elements (write_slot a (unat i) v)) = length (m_elements a) \<and>
      m_elements (write_slot a (unat i) v) ! unat i = v \<and>
      (\<forall>j. j \<noteq> unat i \<longrightarrow> m_elements (write_slot a (unat i) v) ! j = m_elements a ! j)"
    if "i < size_array sg ArraySize" for i
  proof -
    from that wf have "unat i < length (m_elements a)"
      by (simp add: well_formed_def word_less_nat_alt)
    with wf show ?thesis
      by (simp add: write_slot_def well_formed_def)
  qed
  show ?thesis
    using slot [of index] slot [of "to_size_t sg key"]
    by (simp add: assign_pos_def assign_key_def subscript_pos_def subscript_key_def)
qed

theorem assign_changes_one_slot_witness:
  "assign_pos Signed (Enum (3 :: 32 word)) \<lparr>m_elements = [''Bar'', ''Baz'', ''Fooz'']\<rparr> 1 ''x''
     = Inr \<lparr>m_elements = [''Bar'', ''x'', ''Fooz'']\<rparr> \<and>
   assign_key Signed (Enum (3 :: 32 word)) \<lparr>m_elements = [''Bar'', ''Baz'', ''Fooz'']\<rparr> (Enum 2) ''y''
     = Inr \<lparr>m_elements = [''Bar'', ''Baz'', ''y'']\<rparr>"
proof -
  let ?a = "\<lparr>m_elements = [''Bar'', ''Baz'', ''Fooz'']\<rparr>"
  have wf: "well_formed Signed (Enum (3 :: 32 word)) ?a"
    by (simp add: well_formed_def size_array_def to_size_t_def)
  have i: "(1 :: size_t) < size_array Signed (Enum (3 :: 32 word))"
    by (simp add: size_array_def to_size_t_def)
  have k: "to_size_t Signed (Enum (2 :: 32 word)) < size_array Signed (Enum (3 :: 32 word))"
    by (simp add: size_array_def to_size_t_def)
  from assign_changes_one_slot [OF wf, where index = 1 and v = "''x''"] i
  obtain a' where 1: "assign_pos Signed (Enum (3 :: 32 word)) ?a 1 ''x'' = Inr a'"
    by blast
  from assign_changes_one_slot [OF wf, where key = "Enum 2" and v = "''y''"] k
  obtain a'' where 2: "assign_key Signed (Enum (3 :: 32 word)) ?a (Enum 2) ''y'' = Inr a''"
    by blast
  from 1 have "a' = \<lparr>m_elements = [''Bar'', ''x'', ''Fooz'']\<rparr>"
    by (simp add: assign_pos_def subscript_pos_def size_array_def to_size_t_def write_slot_def)
  moreover from 2 have "a'' = \<lparr>m_elements = [''Bar'', ''Baz'', ''y'']\<rparr>"
    by (simp add: assign_key_def subscript_key_def size_array_def to_size_t_def write_slot_def)
  ultimately show ?thesis using 1 2 by simp
qed

end
